theory Spec2Isabelle
  imports Complex_Main
begin

section \<open>The SFC threads paginator (paginator.js)\<close>

text \<open>
  The script paginates the rows of the table \<open>#posts\<close>. The rows that
  \<open>collectBlocks\<close> reads (\<open>querySelectorAll(':scope > tbody > tr, :scope > tr')\<close>)
  are given in document order as the list of their \<open>className\<close> strings; a row is
  named by its position in that list. The one mutable property of a row,
  \<open>tr.style.display\<close>, lives in a store from row positions to strings, so a row that two
  blocks refer to is one cell of the store.
\<close>

subsection \<open>The regular expressions \<open>/\bpost\b/\<close> and \<open>/\bspace\b/\<close>\<close>

text \<open>
  A JavaScript word character is one of \<open>[A-Za-z0-9_]\<close>. Any other code unit,
  every non-ASCII one included, is not a word character.
\<close>

definition is_word_char :: "char \<Rightarrow> bool" where
  "is_word_char c =
     (let n = (of_char c :: nat)
      in (48 \<le> n \<and> n \<le> 57) \<or> (65 \<le> n \<and> n \<le> 90) \<or> n = 95 \<or> (97 \<le> n \<and> n \<le> 122))"

fun starts_with :: "string \<Rightarrow> string \<Rightarrow> bool" where
  "starts_with [] s = True"
| "starts_with (a # w) [] = False"
| "starts_with (a # w) (c # s) = (a = c \<and> starts_with w s)"

text \<open>\<open>\b\<close> after the last letter of the word: the input ends, or a non-word character follows.\<close>

fun boundary_after :: "string \<Rightarrow> bool" where
  "boundary_after [] = True"
| "boundary_after (c # s) = (\<not> is_word_char c)"

text \<open>
  \<open>word_scan w pw s\<close>: the matcher tries every start position of \<open>s\<close> from left to
  right; \<open>pw\<close> tells whether the character before the position is a word character. The
  word \<open>w\<close> is made of letters, so \<open>\b\<close> before it holds exactly when \<open>pw\<close> is
  false.
\<close>

fun word_scan :: "string \<Rightarrow> bool \<Rightarrow> string \<Rightarrow> bool" where
  "word_scan w pw [] = False"
| "word_scan w pw (c # s) =
     (if \<not> pw \<and> starts_with w (c # s) \<and> boundary_after (drop (length w) (c # s)) then True
      else word_scan w (is_word_char c) s)"

definition regex_word_test :: "string \<Rightarrow> string \<Rightarrow> bool" where
  "regex_word_test w s = word_scan w False s"

definition is_post :: "string \<Rightarrow> bool" where
  "is_post cls = regex_word_test ''post'' cls"

definition is_space :: "string \<Rightarrow> bool" where
  "is_space cls = regex_word_test ''space'' cls"

subsection \<open>collectBlocks\<close>

text \<open>
  \<open>trs[i - 1]\<close> is \<open>undefined\<close> for \<open>i = 0\<close>, so the test \<open>prev && ...\<close> fails
  there; otherwise it is the row before row \<open>i\<close>.
\<close>

definition block_of :: "string list \<Rightarrow> nat \<Rightarrow> nat list" where
  "block_of trs i =
     (if 0 < i \<and> is_space (trs ! (i - 1)) then [i - 1, i] else [i])"

function collect_loop :: "string list \<Rightarrow> nat \<Rightarrow> nat list list \<Rightarrow> nat list list" where
  "collect_loop trs i blocks =
     (if i < length trs
      then collect_loop trs (i + 1)
             (if is_post (trs ! i) then blocks @ [block_of trs i] else blocks)
      else blocks)"
  by pat_completeness auto
termination
  by (relation "measure (\<lambda>(trs, i, blocks). length trs - i)") auto

declare collect_loop.simps [simp del]

definition collectBlocks :: "string list \<Rightarrow> nat list list" where
  "collectBlocks trs = collect_loop trs 0 []"

text \<open>
  The class list of the DOM, which the specification speaks of and the code does not
  consult, for comparison with the regular expressions: the tokens of \<open>className\<close> are
  its maximal runs of characters other than ASCII whitespace (space, tab, line feed, form
  feed, carriage return).
\<close>

definition is_ascii_whitespace :: "char \<Rightarrow> bool" where
  "is_ascii_whitespace c = ((of_char c :: nat) \<in> {32, 9, 10, 12, 13})"

fun class_tokens_acc :: "string \<Rightarrow> string \<Rightarrow> string list" where
  "class_tokens_acc tok [] = (if tok = [] then [] else [tok])"
| "class_tokens_acc tok (c # s) =
     (if is_ascii_whitespace c
      then (if tok = [] then class_tokens_acc [] s else tok # class_tokens_acc [] s)
      else class_tokens_acc (tok @ [c]) s)"

definition classList_contains :: "string \<Rightarrow> string \<Rightarrow> bool" where
  "classList_contains cls tok = (tok \<in> set (class_tokens_acc [] cls))"

subsection \<open>showBlocks\<close>

definition POSTS_PER_PAGE :: int where
  "POSTS_PER_PAGE = 10"

text \<open>The test \<open>i >= start && i < end\<close> of the loop body, for block \<open>i\<close>.\<close>

definition visible :: "nat \<Rightarrow> int \<Rightarrow> bool" where
  "visible i pageIndex =
     (let start = pageIndex * POSTS_PER_PAGE;
          stop = start + POSTS_PER_PAGE
      in int i \<ge> start \<and> int i < stop)"

definition display_value :: "bool \<Rightarrow> string" where
  "display_value v = (if v then '''' else ''none'')"

text \<open>The inner loop \<open>for (const tr of blocks[i]) tr.style.display = ...\<close>.\<close>

fun set_display :: "nat list \<Rightarrow> string \<Rightarrow> (nat \<Rightarrow> string) \<Rightarrow> (nat \<Rightarrow> string)" where
  "set_display [] v d = d"
| "set_display (tr # rest) v d = set_display rest v (d(tr := v))"

function show_loop ::
  "nat list list \<Rightarrow> int \<Rightarrow> nat \<Rightarrow> (nat \<Rightarrow> string) \<Rightarrow> (nat \<Rightarrow> string)" where
  "show_loop blocks pageIndex i d =
     (if i < length blocks
      then show_loop blocks pageIndex (i + 1)
             (set_display (blocks ! i) (display_value (visible i pageIndex)) d)
      else d)"
  by pat_completeness auto
termination
  by (relation "measure (\<lambda>(blocks, pageIndex, i, d). length blocks - i)") auto

declare show_loop.simps [simp del]

definition showBlocks :: "nat list list \<Rightarrow> int \<Rightarrow> (nat \<Rightarrow> string) \<Rightarrow> (nat \<Rightarrow> string)" where
  "showBlocks blocks pageIndex d = show_loop blocks pageIndex 0 d"

subsection \<open>Numbers in template literals\<close>

text \<open>
  \<open>`Page ${current + 1} of ${totalPages}`\<close> prints integers in decimal (for magnitudes
  below \<open>10^21\<close>, which page counts never reach).
\<close>

definition digit_char :: "nat \<Rightarrow> char" where
  "digit_char n = char_of (n + 48)"

text \<open>The digits of \<open>n\<close>, most significant first, in front of \<open>acc\<close>.\<close>

function decimal_digits :: "nat \<Rightarrow> string \<Rightarrow> string" where
  "decimal_digits n acc =
     (if 10 \<le> n then decimal_digits (n div 10) (digit_char (n mod 10) # acc)
      else digit_char n # acc)"
  by pat_completeness auto
termination
  by (relation "measure fst") auto

declare decimal_digits.simps [simp del]

definition number_toString :: "int \<Rightarrow> string" where
  "number_toString i =
     (if 0 \<le> i then decimal_digits (nat i) [] else CHR ''-'' # decimal_digits (nat (- i)) [])"

subsection \<open>createControls\<close>

text \<open>
  The widget: the \<open>disabled\<close> flags of the two buttons, the indicator's text, and the
  closure variable \<open>current\<close>. The closure constants \<open>totalPages\<close> and \<open>onPage\<close> are
  parameters of the handlers. The callback acts on a state \<open>'d\<close> of its own (in
  \<open>paginate\<close>: the display store).
\<close>

record widget =
  prev_disabled :: bool
  next_disabled :: bool
  indicator :: string
  current :: int

text \<open>
  Construction: \<open>prev.disabled = true\<close>, \<open>next\<close> is a fresh button (its \<open>disabled\<close> is
  false), the indicator reads page 1, \<open>current = 0\<close>. An existing element with the id
  \<open>sfc-paginator-controls\<close> is removed and the new one takes its place. Nothing calls
  \<open>onPage\<close> here.
\<close>

definition createControls ::
  "int \<Rightarrow> (int \<Rightarrow> 'd \<Rightarrow> 'd) \<Rightarrow> widget option \<times> 'd \<Rightarrow> widget \<times> 'd" where
  "createControls totalPages onPage = (\<lambda>(existing, d).
     (\<lparr>prev_disabled = True, next_disabled = False,
       indicator = ''Page 1 of '' @ number_toString totalPages,
       current = 0\<rparr>, d))"

definition updateButtons :: "int \<Rightarrow> (int \<Rightarrow> 'd \<Rightarrow> 'd) \<Rightarrow> widget \<times> 'd \<Rightarrow> widget \<times> 'd" where
  "updateButtons totalPages onPage = (\<lambda>(w, d).
     (w\<lparr>prev_disabled := current w \<le> 0,
        next_disabled := current w \<ge> totalPages - 1,
        indicator := ''Page '' @ number_toString (current w + 1) @ '' of '' @ number_toString totalPages\<rparr>,
      onPage (current w) d))"

definition click_prev :: "int \<Rightarrow> (int \<Rightarrow> 'd \<Rightarrow> 'd) \<Rightarrow> widget \<times> 'd \<Rightarrow> widget \<times> 'd" where
  "click_prev totalPages onPage = (\<lambda>(w, d).
     if current w > 0 then updateButtons totalPages onPage (w\<lparr>current := current w - 1\<rparr>, d)
     else (w, d))"

definition click_next :: "int \<Rightarrow> (int \<Rightarrow> 'd \<Rightarrow> 'd) \<Rightarrow> widget \<times> 'd \<Rightarrow> widget \<times> 'd" where
  "click_next totalPages onPage = (\<lambda>(w, d).
     if current w < totalPages - 1 then updateButtons totalPages onPage (w\<lparr>current := current w + 1\<rparr>, d)
     else (w, d))"

text \<open>\<open>setPage\<close>: \<open>current = Math.max(0, Math.min(totalPages - 1, n)); updateButtons()\<close>.\<close>

definition setPage :: "int \<Rightarrow> (int \<Rightarrow> 'd \<Rightarrow> 'd) \<Rightarrow> int \<Rightarrow> widget \<times> 'd \<Rightarrow> widget \<times> 'd" where
  "setPage totalPages onPage n = (\<lambda>(w, d).
     updateButtons totalPages onPage (w\<lparr>current := max 0 (min (totalPages - 1) n)\<rparr>, d))"

text \<open>
  What can happen to a widget after its construction: the click listeners run, or the
  holder of the returned object calls \<open>setPage\<close>.
\<close>

datatype event = ClickPrev | ClickNext | SetPage int

fun fire :: "int \<Rightarrow> (int \<Rightarrow> 'd \<Rightarrow> 'd) \<Rightarrow> event \<Rightarrow> widget \<times> 'd \<Rightarrow> widget \<times> 'd" where
  "fire totalPages onPage ClickPrev s = click_prev totalPages onPage s"
| "fire totalPages onPage ClickNext s = click_next totalPages onPage s"
| "fire totalPages onPage (SetPage n) s = setPage totalPages onPage n s"

fun run_events :: "int \<Rightarrow> (int \<Rightarrow> 'd \<Rightarrow> 'd) \<Rightarrow> event list \<Rightarrow> widget \<times> 'd \<Rightarrow> widget \<times> 'd" where
  "run_events totalPages onPage [] s = s"
| "run_events totalPages onPage (e # es) s =
     run_events totalPages onPage es (fire totalPages onPage e s)"

subsection \<open>paginate\<close>

text \<open>
  The part of the page that \<open>paginate\<close> touches: the display store of the rows, the
  element with the id \<open>sfc-paginator-controls\<close> (if any), the console (absent in a host
  without one: \<open>log\<close> tests \<open>window.console && console.log\<close>) and the delays of the
  callbacks handed to \<open>setTimeout\<close>.
\<close>

record page =
  display :: "nat \<Rightarrow> string"
  controls :: "widget option"
  console :: "string list list option"
  timeouts :: "nat list"

definition log_console :: "string list \<Rightarrow> page \<Rightarrow> page" where
  "log_console args pg =
     (case console pg of
        None \<Rightarrow> pg
      | Some lines \<Rightarrow> pg\<lparr>console := Some (lines @ [''[sfc-paginator]'' # args])\<rparr>)"

text \<open>The two messages hold an em dash, three bytes in UTF-8.\<close>

definition em_dash :: string where
  "em_dash = [CHR 0xE2, CHR 0x80, CHR 0x94]"

definition msg_no_blocks :: string where
  "msg_no_blocks = ''no post blocks found '' @ em_dash @ '' nothing to paginate''"

definition msg_skip :: string where
  "msg_skip = ''post count <= page size '' @ em_dash @ '' skipping pagination''"

text \<open>
  \<open>Math.ceil(blocks.length / POSTS_PER_PAGE)\<close>: the quotient is exact when the length
  is a multiple of ten and otherwise lies strictly between two integers, also as a
  double, so the ceiling is the one of the real quotient.
\<close>

definition paginate :: "string list \<Rightarrow> page \<Rightarrow> page" where
  "paginate trs pg =
     (let blocks = collectBlocks trs in
      if length blocks = 0 then log_console [msg_no_blocks] pg
      else if int (length blocks) \<le> POSTS_PER_PAGE then log_console [msg_skip] pg
      else
        let totalPages = \<lceil>real (length blocks) / real_of_int POSTS_PER_PAGE\<rceil>;
            onPage = (\<lambda>page. showBlocks blocks page);
            created = createControls totalPages onPage (controls pg, display pg);
            (w, d) = setPage totalPages onPage (totalPages - 1) created
        in pg\<lparr>display := d, controls := Some w, timeouts := timeouts pg @ [50]\<rparr>)"

subsection \<open>The one-shot flag\<close>

text \<open>
  The body of the script: the flag \<open>window.__sfcPaginatorInitialized\<close> (its truthiness),
  then the function declarations (no effect), then \<open>init\<close> is handed to the host, to
  \<open>setTimeout(init, 0)\<close> when the document is ready and to the \<open>DOMContentLoaded\<close>
  listeners otherwise.
\<close>

datatype readyState = Loading | Interactive | Complete

datatype callback = Init

record window =
  sfcPaginatorInitialized :: bool
  document_readyState :: readyState
  timers :: "(callback \<times> nat) list"
  listeners :: "(string \<times> callback) list"

definition script :: "window \<Rightarrow> window" where
  "script w =
     (if sfcPaginatorInitialized w then w
      else
        let w1 = w\<lparr>sfcPaginatorInitialized := True\<rparr> in
        if document_readyState w1 = Complete \<or> document_readyState w1 = Interactive
        then w1\<lparr>timers := timers w1 @ [(Init, 0)]\<rparr>
        else w1\<lparr>listeners := listeners w1 @ [(''DOMContentLoaded'', Init)]\<rparr>)"

definition init_registrations :: "window \<Rightarrow> nat" where
  "init_registrations w =
     length (filter (\<lambda>(c, ms). c = Init) (timers w)) +
     length (filter (\<lambda>(name, c). c = Init) (listeners w))"

subsection \<open>waitForPostsToStabilize\<close>

text \<open>
  The closure state of the watcher and what happened to its observer and its promise.
  The executor has no \<open>reject\<close> parameter; \<open>Rejected\<close> is there to be excluded.
\<close>

datatype promise_state = Pending | Resolved | Rejected

record watcher =
  start :: int
  lastCount :: nat
  stableSince :: int
  observing :: bool
  disconnects :: nat
  promise :: promise_state
















subsection \<open>Notions used in the statements\<close>

text \<open>The rows that match \<open>/\bpost\b/\<close>, in document order.\<close>

definition post_rows :: "string list \<Rightarrow> nat list" where
  "post_rows trs = filter (\<lambda>i. is_post (trs ! i)) [0..<length trs]"

text \<open>The widget's buttons agree with its page.\<close>

definition buttons_ok :: "int \<Rightarrow> widget \<Rightarrow> bool" where
  "buttons_ok totalPages w =
     ((prev_disabled w \<longleftrightarrow> current w = 0) \<and> (next_disabled w \<longleftrightarrow> current w = totalPages - 1))"

text \<open>The units that \<open>showBlocks\<close> writes as visible for a page, of \<open>U\<close> units.\<close>

definition page_units :: "nat \<Rightarrow> int \<Rightarrow> nat list" where
  "page_units U p = filter (\<lambda>j. visible j p) [0..<U]"

text \<open>A page nobody has touched: every row has the default display, there is no widget.\<close>

definition fresh_page :: page where
  "fresh_page = \<lparr>display = (\<lambda>r. ''''), controls = None, console = Some [], timeouts = []\<rparr>"

text \<open>A callback that only records the page indices it is called with.\<close>

definition record_call :: "int \<Rightarrow> int list \<Rightarrow> int list" where
  "record_call page calls = calls @ [page]"

text \<open>A window in which the script has not run: the flag is unset, nothing is registered.\<close>

definition fresh_window :: "readyState \<Rightarrow> window" where
  "fresh_window rs =
     \<lparr>sfcPaginatorInitialized = False, document_readyState = rs, timers = [], listeners = []\<rparr>"

text \<open>The buttons agree with the page, and the page is in range.\<close>

definition page_ok :: "int \<Rightarrow> widget \<Rightarrow> bool" where
  "page_ok totalPages w = (buttons_ok totalPages w \<and> 0 \<le> current w \<and> current w \<le> totalPages - 1)"



section \<open>Properties\<close>

subsection \<open>The row grouper\<close>

lemma collect_loop_eq:
  "collect_loop trs i acc =
     acc @ map (block_of trs) (filter (\<lambda>k. is_post (trs ! k)) [i..<length trs])"
proof (induction trs i acc rule: collect_loop.induct)
  case (1 trs i blocks)
  show ?case
  proof (cases "i < length trs")
    case True
    then have "[i..<length trs] = i # [i + 1..<length trs]"
      by (simp add: upt_conv_Cons)
    with True "1.IH" show ?thesis
      by (subst collect_loop.simps) simp
  next
    case False
    then show ?thesis
      by (subst collect_loop.simps) simp
  qed
qed

lemma collectBlocks_eq: "collectBlocks trs = map (block_of trs) (post_rows trs)"
  by (simp add: collectBlocks_def post_rows_def collect_loop_eq)

lemma length_post_rows: "length (post_rows trs) = length (filter is_post trs)"
proof -
  have "filter is_post (map (nth trs) [0..<length trs]) =
        map (nth trs) (filter (is_post \<circ> nth trs) [0..<length trs])"
    by (rule filter_map)
  then have "length (filter is_post trs) = length (filter (is_post \<circ> nth trs) [0..<length trs])"
    by (simp add: map_nth)
  then show ?thesis
    by (simp add: post_rows_def comp_def)
qed

lemma last_block_of: "last (block_of trs i) = i"
  by (simp add: block_of_def)

lemma set_block_of:
  "r \<in> set (block_of trs i) \<longleftrightarrow> r = i \<or> (is_space (trs ! r) \<and> Suc r = i)"
  by (auto simp: block_of_def)



text \<open>
  What \<open>collectBlocks\<close> computes. It returns one unit for each row whose \<open>className\<close>
  matches \<open>/\bpost\b/\<close>, in document order: the last row of the \<open>k\<close>-th unit is the
  \<open>k\<close>-th such row. A row belongs to the \<open>k\<close>-th unit exactly when it is that post row,
  or it matches \<open>/\bspace\b/\<close> and is the row just before that post row.
\<close>

lemma collectBlocks_units:
  "length (collectBlocks trs) = length (filter is_post trs) \<and>
   map last (collectBlocks trs) = post_rows trs \<and>
   (\<forall>k < length (collectBlocks trs). \<forall>r.
      r \<in> set (collectBlocks trs ! k) \<longleftrightarrow>
        r = post_rows trs ! k \<or> (is_space (trs ! r) \<and> Suc r = post_rows trs ! k))"
  by (simp add: collectBlocks_eq length_post_rows last_block_of comp_def set_block_of)

text \<open>
  Claim C1: one unit per row whose class list contains the token \<open>post\<close>. The code
  misses it on class names with a hyphen or another non-word character next to the
  word. In a table with the rows \<open>space\<close>, \<open>post\<close>, \<open>post-it\<close> one row carries the token
  \<open>post\<close>, and the selector \<open>tr.post\<close> that the rest of the script uses finds that one
  row; \<open>collectBlocks\<close> returns two units, because \<open>/\bpost\b/\<close> takes the hyphen of
  \<open>post-it\<close> for the end of the word.
\<close>

theorem collectBlocks_hyphenated_class:
  "collectBlocks [''space'', ''post'', ''post-it''] = [[0, 1], [2]] \<and>
   filter (\<lambda>cls. classList_contains cls ''post'') [''space'', ''post'', ''post-it''] = [''post''] \<and>
   is_post ''post-it'' \<and>
   \<not> classList_contains ''post-it'' ''post''"
  by code_simp

subsection \<open>The pager\<close>

lemma set_display_apply: "set_display b v d r = (if r \<in> set b then v else d r)"
  by (induction b arbitrary: d) auto

lemma show_loop_step:
  "i < length blocks \<Longrightarrow>
   show_loop blocks p i d =
     show_loop blocks p (Suc i) (set_display (blocks ! i) (display_value (visible i p)) d)"
  by (subst show_loop.simps) simp

lemma show_loop_done: "\<not> i < length blocks \<Longrightarrow> show_loop blocks p i d = d"
  by (subst show_loop.simps) simp

text \<open>A row that no remaining block holds keeps its display.\<close>

lemma show_loop_untouched:
  "(\<And>k. i \<le> k \<Longrightarrow> k < length blocks \<Longrightarrow> r \<notin> set (blocks ! k)) \<Longrightarrow>
   show_loop blocks p i d r = d r"
proof (induction blocks p i d rule: show_loop.induct)
  case (1 blocks p i d)
  show ?case
  proof (cases "i < length blocks")
    case True
    have "show_loop blocks p (i + 1) (set_display (blocks ! i) (display_value (visible i p)) d) r =
          set_display (blocks ! i) (display_value (visible i p)) d r"
      using True "1.prems" by (intro "1.IH") auto
    moreover have "r \<notin> set (blocks ! i)"
      using True "1.prems" by simp
    ultimately show ?thesis
      using True by (simp add: show_loop_step set_display_apply)
  next
    case False
    then show ?thesis by (simp add: show_loop_done)
  qed
qed

text \<open>The display of a row after the loop depends on its display before only.\<close>

lemma show_loop_local:
  "d r = d' r \<or> (\<exists>k. i \<le> k \<and> k < length blocks \<and> r \<in> set (blocks ! k)) \<Longrightarrow>
   show_loop blocks p i d r = show_loop blocks p i d' r"
proof (induction blocks p i d arbitrary: d' rule: show_loop.induct)
  case (1 blocks p i d)
  show ?case
  proof (cases "i < length blocks")
    case True
    let ?v = "display_value (visible i p)"
    have "set_display (blocks ! i) ?v d r = set_display (blocks ! i) ?v d' r \<or>
          (\<exists>k. i + 1 \<le> k \<and> k < length blocks \<and> r \<in> set (blocks ! k))"
    proof (cases "r \<in> set (blocks ! i)")
      case True
      then show ?thesis by (simp add: set_display_apply)
    next
      case False
      from "1.prems" show ?thesis
      proof
        assume "d r = d' r"
        then show ?thesis by (simp add: set_display_apply)
      next
        assume "\<exists>k. i \<le> k \<and> k < length blocks \<and> r \<in> set (blocks ! k)"
        then obtain k where k: "i \<le> k" "k < length blocks" "r \<in> set (blocks ! k)" by blast
        with False have "k \<noteq> i" by auto
        with k show ?thesis by (intro disjI2 exI [of _ k]) simp
      qed
    qed
    then have "show_loop blocks p (i + 1) (set_display (blocks ! i) ?v d) r =
               show_loop blocks p (i + 1) (set_display (blocks ! i) ?v d') r"
      using True by (intro "1.IH") auto
    then show ?thesis
      using True by (simp add: show_loop_step)
  next
    case False
    with "1.prems" show ?thesis by (auto simp: show_loop_done)
  qed
qed

text \<open>
  A row all of whose remaining blocks are written with the same value ends with that
  value, if some remaining block holds it.
\<close>

lemma show_loop_value:
  assumes "\<And>k. i \<le> k \<Longrightarrow> k < length blocks \<Longrightarrow> r \<in> set (blocks ! k) \<Longrightarrow>
             display_value (visible k p) = v"
    and "d r = v \<or> (\<exists>k. i \<le> k \<and> k < length blocks \<and> r \<in> set (blocks ! k))"
  shows "show_loop blocks p i d r = v"
  using assms
proof (induction blocks p i d rule: show_loop.induct)
  case (1 blocks p i d)
  show ?case
  proof (cases "i < length blocks")
    case True
    let ?d = "set_display (blocks ! i) (display_value (visible i p)) d"
    have "?d r = v \<or> (\<exists>k. i + 1 \<le> k \<and> k < length blocks \<and> r \<in> set (blocks ! k))"
    proof (cases "r \<in> set (blocks ! i)")
      case True
      with \<open>i < length blocks\<close> "1.prems"(1) [of i] show ?thesis
        by (simp add: set_display_apply)
    next
      case False
      from "1.prems"(2) show ?thesis
      proof
        assume "d r = v"
        with False show ?thesis by (simp add: set_display_apply)
      next
        assume "\<exists>k. i \<le> k \<and> k < length blocks \<and> r \<in> set (blocks ! k)"
        then obtain k where k: "i \<le> k" "k < length blocks" "r \<in> set (blocks ! k)" by blast
        with False have "k \<noteq> i" by auto
        with k show ?thesis by (intro disjI2 exI [of _ k]) simp
      qed
    qed
    then have "show_loop blocks p (i + 1) ?d r = v"
      using True "1.prems"(1) by (intro "1.IH") auto
    then show ?thesis
      using True by (simp add: show_loop_step)
  next
    case False
    with "1.prems" show ?thesis by (auto simp: show_loop_done)
  qed
qed

lemma showBlocks_untouched:
  "(\<And>k. k < length blocks \<Longrightarrow> r \<notin> set (blocks ! k)) \<Longrightarrow> showBlocks blocks p d r = d r"
  by (simp add: showBlocks_def show_loop_untouched)

lemma showBlocks_value:
  assumes "j < length blocks" and "r \<in> set (blocks ! j)"
    and "\<And>k. k < length blocks \<Longrightarrow> r \<in> set (blocks ! k) \<Longrightarrow> visible k p = visible j p"
  shows "showBlocks blocks p d r = display_value (visible j p)"
  unfolding showBlocks_def
proof (rule show_loop_value)
  show "d r = display_value (visible j p) \<or>
        (\<exists>k. 0 \<le> k \<and> k < length blocks \<and> r \<in> set (blocks ! k))"
    using assms(1,2) by blast
next
  fix k assume "k < length blocks" "r \<in> set (blocks ! k)"
  then show "display_value (visible k p) = display_value (visible j p)"
    using assms(3) by simp
qed

lemma showBlocks_idem: "showBlocks blocks p (showBlocks blocks p d) = showBlocks blocks p d"
proof
  fix r
  show "showBlocks blocks p (showBlocks blocks p d) r = showBlocks blocks p d r"
  proof (cases "\<exists>k. k < length blocks \<and> r \<in> set (blocks ! k)")
    case True
    then show ?thesis
      unfolding showBlocks_def by (intro show_loop_local) auto
  next
    case False
    then show ?thesis
      by (simp add: showBlocks_untouched)
  qed
qed

lemma visible_iff: "visible j p \<longleftrightarrow> p * 10 \<le> int j \<and> int j < (p + 1) * 10"
  by (simp add: visible_def POSTS_PER_PAGE_def Let_def algebra_simps)

lemma set_page_units:
  "0 \<le> p \<Longrightarrow> set (page_units U p) = {nat (p * 10) ..< min U (nat (p * 10 + 10))}"
  by (auto simp: page_units_def visible_iff)

lemma length_page_units:
  assumes "0 \<le> p"
  shows "length (page_units U p) = min U (nat (p * 10 + 10)) - nat (p * 10)"
proof -
  have "distinct (page_units U p)"
    by (simp add: page_units_def)
  then have "length (page_units U p) = card (set (page_units U p))"
    by (simp add: distinct_card)
  with assms show ?thesis
    by (simp add: set_page_units)
qed

lemma totalPages_div: "\<lceil>real U / real_of_int POSTS_PER_PAGE\<rceil> = (int U + 9) div 10"
proof -
  have "\<lceil>real U / real_of_int POSTS_PER_PAGE\<rceil> = \<lceil>of_int (int U) / (of_int 10 :: real)\<rceil>"
    by (simp add: POSTS_PER_PAGE_def)
  also have "\<dots> = - (- int U div 10)"
    by (rule ceiling_divide_eq_div)
  also have "\<dots> = (int U + 9) div 10"
    by presburger
  finally show ?thesis .
qed

lemma page_units_counts:
  assumes "totalPages = \<lceil>real U / real_of_int POSTS_PER_PAGE\<rceil>" and "0 \<le> p"
  shows "p < totalPages - 1 \<Longrightarrow> length (page_units U p) = 10"
    and "p = totalPages - 1 \<Longrightarrow> int (length (page_units U p)) = min 10 (int U - p * 10)"
proof -
  have tp: "totalPages = (int U + 9) div 10"
    using assms(1) by (simp add: totalPages_div)
  {
    assume "p < totalPages - 1"
    with tp have "p * 10 + 10 \<le> int U" by linarith
    with assms(2) show "length (page_units U p) = 10"
      by (simp add: length_page_units)
  }
  {
    assume "p = totalPages - 1"
    with tp have "int U \<le> p * 10 + 10" "p * 10 \<le> int U" by linarith+
    with assms(2) show "int (length (page_units U p)) = min 10 (int U - p * 10)"
      by (simp add: length_page_units)
  }
qed

subsection \<open>The widget and \<open>paginate\<close>\<close>


lemma updateButtons_apply:
  "updateButtons totalPages onPage (w, d) =
     (w\<lparr>prev_disabled := current w \<le> 0,
        next_disabled := current w \<ge> totalPages - 1,
        indicator := ''Page '' @ number_toString (current w + 1) @ '' of '' @ number_toString totalPages\<rparr>,
      onPage (current w) d)"
  by (simp add: updateButtons_def)

lemma setPage_apply:
  "setPage totalPages onPage n (w, d) =
     (\<lparr>prev_disabled = max 0 (min (totalPages - 1) n) \<le> 0,
       next_disabled = max 0 (min (totalPages - 1) n) \<ge> totalPages - 1,
       indicator = ''Page '' @ number_toString (max 0 (min (totalPages - 1) n) + 1) @ '' of '' @
                   number_toString totalPages,
       current = max 0 (min (totalPages - 1) n)\<rparr>,
      onPage (max 0 (min (totalPages - 1) n)) d)"
  by (simp add: setPage_def updateButtons_def)

lemma createControls_apply:
  "createControls totalPages onPage (existing, d) =
     (\<lparr>prev_disabled = True, next_disabled = False,
       indicator = ''Page 1 of '' @ number_toString totalPages, current = 0\<rparr>, d)"
  by (simp add: createControls_def)

lemma paginate_skip:
  "length (collectBlocks trs) \<le> 10 \<Longrightarrow>
   paginate trs pg =
     log_console [if length (collectBlocks trs) = 0 then msg_no_blocks else msg_skip] pg"
  by (simp add: paginate_def Let_def POSTS_PER_PAGE_def)

lemma paginate_run:
  assumes "10 < length (collectBlocks trs)"
    and "totalPages = \<lceil>real (length (collectBlocks trs)) / real_of_int POSTS_PER_PAGE\<rceil>"
  shows "paginate trs pg =
     pg\<lparr>display := showBlocks (collectBlocks trs) (totalPages - 1) (display pg),
        controls := Some \<lparr>prev_disabled = False, next_disabled = True,
                          indicator = ''Page '' @ number_toString totalPages @ '' of '' @
                                      number_toString totalPages,
                          current = totalPages - 1\<rparr>,
        timeouts := timeouts pg @ [50]\<rparr>"
proof -
  have "totalPages = (int (length (collectBlocks trs)) + 9) div 10"
    using assms(2) by (simp add: totalPages_div)
  with assms(1) have tp: "2 \<le> totalPages" by linarith
  then have clamp: "max 0 (min (totalPages - 1) (totalPages - 1)) = totalPages - 1"
    by simp
  have ne: "collectBlocks trs \<noteq> []"
    using assms(1) by auto
  have "setPage totalPages (showBlocks (collectBlocks trs)) (totalPages - 1)
          (createControls totalPages (showBlocks (collectBlocks trs)) (controls pg, display pg)) =
        (\<lparr>prev_disabled = False, next_disabled = True,
          indicator = ''Page '' @ number_toString totalPages @ '' of '' @ number_toString totalPages,
          current = totalPages - 1\<rparr>,
         showBlocks (collectBlocks trs) (totalPages - 1) (display pg))"
    using tp by (simp only: createControls_apply setPage_apply clamp) simp
  moreover have "\<lceil>real (length (collectBlocks trs)) / 10\<rceil> = totalPages"
    using assms(2) by (simp add: POSTS_PER_PAGE_def)
  ultimately show ?thesis
    using assms(1) ne
    by (simp add: paginate_def Let_def POSTS_PER_PAGE_def)
qed

subsection \<open>Claims about the pager and \<open>paginate\<close>\<close>

text \<open>
  Claim C2, as the code has it. Take a block list in which no row belongs both to a unit
  inside the window of page \<open>p\<close> and to a unit outside it. Then \<open>showBlocks\<close> leaves
  every row of unit \<open>j\<close> with the display \<open>''\<close> when \<open>p * 10 \<le> j < (p + 1) * 10\<close>
  and with \<open>none\<close> otherwise, and a row of no unit keeps its display. With
  \<open>totalPages = ceil(U / 10)\<close> the window of a page before the last holds ten units, the
  window of the last page \<open>min(10, U - p * 10)\<close>.
\<close>

theorem showBlocks_page:
  assumes "\<forall>j<length blocks. \<forall>k<length blocks.
             visible j p \<noteq> visible k p \<longrightarrow> set (blocks ! j) \<inter> set (blocks ! k) = {}"
    and "totalPages = \<lceil>real (length blocks) / real_of_int POSTS_PER_PAGE\<rceil>"
  shows "(\<forall>j<length blocks. \<forall>r\<in>set (blocks ! j).
            showBlocks blocks p d r =
              (if p * 10 \<le> int j \<and> int j < (p + 1) * 10 then '''' else ''none'')) \<and>
         (\<forall>r. (\<forall>j<length blocks. r \<notin> set (blocks ! j)) \<longrightarrow> showBlocks blocks p d r = d r) \<and>
         set (page_units (length blocks) p) =
           {j. j < length blocks \<and> p * 10 \<le> int j \<and> int j < (p + 1) * 10} \<and>
         (0 \<le> p \<and> p < totalPages - 1 \<longrightarrow> length (page_units (length blocks) p) = 10) \<and>
         (0 \<le> p \<and> p = totalPages - 1 \<longrightarrow>
            int (length (page_units (length blocks) p)) = min 10 (int (length blocks) - p * 10))"
proof (intro conjI allI impI ballI)
  fix j r
  assume j: "j < length blocks" and r: "r \<in> set (blocks ! j)"
  have "showBlocks blocks p d r = display_value (visible j p)"
  proof (rule showBlocks_value [OF j r])
    fix k
    assume "k < length blocks" "r \<in> set (blocks ! k)"
    with j r assms(1) show "visible k p = visible j p"
      by blast
  qed
  then show "showBlocks blocks p d r =
      (if p * 10 \<le> int j \<and> int j < (p + 1) * 10 then '''' else ''none'')"
    by (simp add: display_value_def visible_iff)
next
  fix r
  assume "\<forall>j<length blocks. r \<notin> set (blocks ! j)"
  then show "showBlocks blocks p d r = d r"
    by (simp add: showBlocks_untouched)
next
  show "set (page_units (length blocks) p) =
      {j. j < length blocks \<and> p * 10 \<le> int j \<and> int j < (p + 1) * 10}"
    by (auto simp: page_units_def visible_iff)
next
  assume "0 \<le> p \<and> p < totalPages - 1"
  then have "0 \<le> p" "p < totalPages - 1" by simp_all
  then show "length (page_units (length blocks) p) = 10"
    by (rule page_units_counts(1) [OF assms(2)])
next
  assume "0 \<le> p \<and> p = totalPages - 1"
  then have "0 \<le> p" "p = totalPages - 1" by simp_all
  then show "int (length (page_units (length blocks) p)) = min 10 (int (length blocks) - p * 10)"
    by (rule page_units_counts(2) [OF assms(2)])
qed

theorem showBlocks_page_witness:
  "showBlocks (map (\<lambda>i. [i]) [0..<12]) 1 (\<lambda>r. ''table-row'') 3 = ''none'' \<and>
   showBlocks (map (\<lambda>i. [i]) [0..<12]) 1 (\<lambda>r. ''table-row'') 11 = '''' \<and>
   showBlocks (map (\<lambda>i. [i]) [0..<12]) 1 (\<lambda>r. ''table-row'') 12 = ''table-row'' \<and>
   length (page_units 12 0) = 10 \<and>
   int (length (page_units 12 1)) = 2"
proof -
  let ?blocks = "map (\<lambda>i. [i]) [0..<12]"
  have disjoint: "\<forall>j<length ?blocks. \<forall>k<length ?blocks.
      visible j 1 \<noteq> visible k 1 \<longrightarrow> set (?blocks ! j) \<inter> set (?blocks ! k) = {}"
    by auto
  have pages: "(2::int) = \<lceil>real (length ?blocks) / real_of_int POSTS_PER_PAGE\<rceil>"
    by (simp add: POSTS_PER_PAGE_def)
  have disjoint0: "\<forall>j<length ?blocks. \<forall>k<length ?blocks.
      visible j 0 \<noteq> visible k 0 \<longrightarrow> set (?blocks ! j) \<inter> set (?blocks ! k) = {}"
    by auto
  note page1 = showBlocks_page [OF disjoint pages, of "\<lambda>r. ''table-row''"]
  note page0 = showBlocks_page [OF disjoint0 pages, of "\<lambda>r. ''table-row''"]
  have "showBlocks ?blocks 1 (\<lambda>r. ''table-row'') 3 = ''none''"
    using page1 [THEN conjunct1, rule_format, of 3 3] by simp
  moreover have "showBlocks ?blocks 1 (\<lambda>r. ''table-row'') 11 = ''''"
    using page1 [THEN conjunct1, rule_format, of 11 11] by simp
  moreover have "showBlocks ?blocks 1 (\<lambda>r. ''table-row'') 12 = ''table-row''"
    using page1 [THEN conjunct2, THEN conjunct1, rule_format, of 12] by auto
  moreover have "length (page_units 12 0) = 10"
    using page0 by simp
  moreover have "int (length (page_units 12 1)) = 2"
    using page1 by simp
  ultimately show ?thesis by simp
qed

text \<open>
  Claim C2 as the specification words it, for every block list, fails when two units
  share a row: a row matching both patterns, followed by a post row, is the post row of
  its own unit and the spacer of the next. With the eleven units below, unit 9 lies in the
  window of page 0, but unit 10 is written after it and hides the row they share.
\<close>

theorem showBlocks_shared_row_counterexample:
  "collectBlocks (replicate 9 ''post'' @ [''post space'', ''post'']) =
     [[0], [1], [2], [3], [4], [5], [6], [7], [8], [9], [9, 10]] \<and>
   visible 9 0 \<and>
   showBlocks [[0], [1], [2], [3], [4], [5], [6], [7], [8], [9], [9, 10]] 0 (\<lambda>r. '''') 9 = ''none''"
  by code_simp



text \<open>
  Claim C7. When \<open>collectBlocks\<close> yields at most ten units (none included),
  \<open>paginate\<close> changes no row's display, leaves the widget slot as it was (no widget is
  created) and schedules nothing; it only logs.
\<close>

theorem paginate_skip_frame:
  assumes "length (collectBlocks trs) \<le> 10"
  shows "display (paginate trs pg) = display pg \<and>
         controls (paginate trs pg) = controls pg \<and>
         timeouts (paginate trs pg) = timeouts pg"
  using assms by (simp add: paginate_skip log_console_def split: option.split)

theorem paginate_skip_frame_witness:
  "display (paginate (replicate 8 ''post'') fresh_page) = (\<lambda>r. '''') \<and>
   controls (paginate (replicate 8 ''post'') fresh_page) = None \<and>
   timeouts (paginate (replicate 8 ''post'') fresh_page) = []"
proof -
  have "length (collectBlocks (replicate 8 ''post'')) \<le> 10"
    by code_simp
  from paginate_skip_frame [OF this, of fresh_page] show ?thesis
    by (simp add: fresh_page_def)
qed

lemma click_prev_apply:
  "click_prev totalPages onPage (w, d) =
     (if current w > 0 then updateButtons totalPages onPage (w\<lparr>current := current w - 1\<rparr>, d)
      else (w, d))"
  by (simp add: click_prev_def)

lemma click_next_apply:
  "click_next totalPages onPage (w, d) =
     (if current w < totalPages - 1
      then updateButtons totalPages onPage (w\<lparr>current := current w + 1\<rparr>, d)
      else (w, d))"
  by (simp add: click_next_def)

lemma fire_state:
  "snd (fire totalPages onPage e (w, d)) = d \<or>
   snd (fire totalPages onPage e (w, d)) =
     onPage (current (fst (fire totalPages onPage e (w, d)))) d"
  by (cases e) (simp_all add: click_prev_apply click_next_apply updateButtons_apply setPage_apply)

lemma display_log_console: "display (log_console args pg) = display pg"
  by (simp add: log_console_def split: option.split)

lemma display_paginate:
  "display (paginate trs pg) = display pg \<or>
   (\<exists>p. display (paginate trs pg) = showBlocks (collectBlocks trs) p (display pg))"
proof (cases "length (collectBlocks trs) \<le> 10")
  case True
  then show ?thesis
    by (simp add: paginate_skip display_log_console)
next
  case False
  then have "10 < length (collectBlocks trs)" by simp
  from paginate_run [OF this refl, of pg] show ?thesis
    by auto
qed

text \<open>
  Claim C9. Applying \<open>showBlocks\<close> for a page a second time changes no row's display,
  for every block list, shared rows included. And no other operation writes a display:
  building the widget leaves the state of the callback as it is, a click or \<open>setPage\<close>
  changes it through the callback only (in \<open>paginate\<close> the callback is
  \<open>showBlocks\<close>), logging does not touch it, and \<open>paginate\<close> leaves the displays
  either as they were or as \<open>showBlocks\<close> writes them.
\<close>

theorem showBlocks_idempotent:
  "showBlocks blocks p (showBlocks blocks p d) = showBlocks blocks p d \<and>
   snd (createControls totalPages onPage (existing, s)) = s \<and>
   (snd (fire totalPages onPage e (w, s)) = s \<or>
    snd (fire totalPages onPage e (w, s)) =
      onPage (current (fst (fire totalPages onPage e (w, s)))) s) \<and>
   display (log_console args pg) = display pg \<and>
   (display (paginate trs pg) = display pg \<or>
    (\<exists>q. display (paginate trs pg) = showBlocks (collectBlocks trs) q (display pg)))"
  using fire_state [of totalPages onPage e w s] display_paginate [of trs pg]
  by (simp add: showBlocks_idem createControls_apply display_log_console)

theorem showBlocks_idempotent_witness:
  "showBlocks [[0], [0, 1]] 0 (showBlocks [[0], [0, 1]] 0 (\<lambda>r. ''block'')) =
     showBlocks [[0], [0, 1]] 0 (\<lambda>r. ''block'') \<and>
   showBlocks [[0], [0, 1]] 0 (\<lambda>r. ''block'') 1 = '''' \<and>
   showBlocks [[0], [0, 1]] 0 (\<lambda>r. ''block'') 2 = ''block''"
proof -
  have "showBlocks [[0], [0, 1]] 0 (\<lambda>r. ''block'') 1 = ''''"
    by code_simp
  moreover have "showBlocks [[0], [0, 1]] 0 (\<lambda>r. ''block'') 2 = ''block''"
    by code_simp
  ultimately show ?thesis
    using showBlocks_idempotent [THEN conjunct1, of "[[0], [0, 1]]" 0 "\<lambda>r. ''block''"]
    by simp
qed

subsection \<open>Claims about the widget\<close>

lemma setPage_page_ok:
  "1 \<le> totalPages \<Longrightarrow> page_ok totalPages (fst (setPage totalPages onPage n (w, d)))"
  by (auto simp: setPage_apply page_ok_def buttons_ok_def)

lemma fire_page_ok:
  assumes "1 \<le> totalPages" and "page_ok totalPages (fst s)"
  shows "page_ok totalPages (fst (fire totalPages onPage e s))"
proof (cases s)
  case (Pair w d)
  with assms show ?thesis
    by (cases e)
      (auto simp: click_prev_apply click_next_apply updateButtons_apply setPage_apply
        page_ok_def buttons_ok_def)
qed

lemma run_events_page_ok:
  "1 \<le> totalPages \<Longrightarrow> page_ok totalPages (fst s) \<Longrightarrow>
   page_ok totalPages (fst (run_events totalPages onPage es s))"
  by (induction es arbitrary: s) (simp_all add: fire_page_ok)

lemma run_events_after_setPage:
  "1 \<le> totalPages \<Longrightarrow> \<exists>n. SetPage n \<in> set es \<Longrightarrow>
   page_ok totalPages (fst (run_events totalPages onPage es s))"
proof (induction es arbitrary: s)
  case Nil
  then show ?case by simp
next
  case (Cons e es)
  show ?case
  proof (cases "\<exists>n. e = SetPage n")
    case True
    then obtain n where e: "e = SetPage n" by blast
    obtain w d where s: "s = (w, d)" by (cases s)
    have "page_ok totalPages (fst (fire totalPages onPage e s))"
      using Cons.prems(1) by (simp add: e s setPage_page_ok)
    with Cons.prems(1) show ?thesis
      by (simp add: run_events_page_ok)
  next
    case False
    with Cons.prems(2) have "\<exists>n. SetPage n \<in> set es" by auto
    with Cons.IH Cons.prems(1) show ?thesis by simp
  qed
qed

lemma createControls_page_ok:
  "2 \<le> totalPages \<Longrightarrow> page_ok totalPages (fst (createControls totalPages onPage (existing, d)))"
  by (simp add: createControls_apply page_ok_def buttons_ok_def)

text \<open>
  Claim C4, as the code has it. For every \<open>totalPages \<ge> 2\<close> (\<open>paginate\<close> builds the
  widget for no fewer: it returns early when there are at most ten units), after the
  construction and after any sequence of clicks and \<open>setPage\<close> calls, Previous is
  disabled exactly when \<open>current = 0\<close> and Next exactly when
  \<open>current = totalPages - 1\<close>. For \<open>totalPages = 1\<close> the same holds once \<open>setPage\<close>
  has been called.
\<close>

theorem buttons_follow_page:
  assumes "2 \<le> totalPages \<or> (totalPages = 1 \<and> (\<exists>n. SetPage n \<in> set es))"
  shows "buttons_ok totalPages
           (fst (run_events totalPages onPage es
                   (createControls totalPages onPage (existing, d))))"
proof -
  let ?s = "createControls totalPages onPage (existing, d)"
  from assms have "page_ok totalPages (fst (run_events totalPages onPage es ?s))"
  proof
    assume "2 \<le> totalPages"
    then show ?thesis
      using run_events_page_ok [of totalPages ?s onPage es]
      by (simp add: createControls_page_ok)
  next
    assume "totalPages = 1 \<and> (\<exists>n. SetPage n \<in> set es)"
    then show ?thesis
      using run_events_after_setPage [of totalPages es onPage ?s] by simp
  qed
  then show ?thesis
    by (simp add: page_ok_def)
qed

theorem buttons_follow_page_witness:
  "buttons_ok 3 (fst (createControls 3 record_call (None, []))) \<and>
   buttons_ok 3 (fst (run_events 3 record_call [ClickNext, ClickNext, ClickNext, ClickPrev]
                        (createControls 3 record_call (None, [])))) \<and>
   buttons_ok 1 (fst (run_events 1 record_call [ClickNext, SetPage 4]
                        (createControls 1 record_call (None, []))))"
proof -
  have "(2::int) \<le> 3 \<or> ((3::int) = 1 \<and> (\<exists>n. SetPage n \<in> set []))"
    by simp
  note a = buttons_follow_page [OF this, of record_call None "[]"]
  have "(2::int) \<le> 3 \<or> ((3::int) = 1 \<and> (\<exists>n. SetPage n \<in> set [ClickNext, ClickNext, ClickNext, ClickPrev]))"
    by simp
  note b = buttons_follow_page [OF this, of record_call None "[]"]
  have "(2::int) \<le> 1 \<or> ((1::int) = 1 \<and> (\<exists>n. SetPage n \<in> set [ClickNext, SetPage 4]))"
    by simp
  note c = buttons_follow_page [OF this, of record_call None "[]"]
  from a b c show ?thesis by simp
qed

text \<open>
  Claim C4 as the specification words it, for every \<open>totalPages \<ge> 1\<close> and right after
  the construction, fails for \<open>totalPages = 1\<close>: the construction disables Previous
  only, so Next is enabled although \<open>current = 0 = totalPages - 1\<close>.
\<close>

theorem next_enabled_counterexample:
  "current (fst (createControls 1 record_call (None, []))) = 1 - 1 \<and>
   \<not> next_disabled (fst (createControls 1 record_call (None, []))) \<and>
   \<not> buttons_ok 1 (fst (createControls 1 record_call (None, [])))"
  by (simp add: createControls_apply buttons_ok_def)

text \<open>
  Claim C5. For every integer \<open>n\<close> (and \<open>totalPages \<ge> 1\<close>), \<open>setPage n\<close> returns: it
  sets \<open>current\<close> to \<open>0\<close> when \<open>n\<close> is below the range, to \<open>totalPages - 1\<close> when it is
  above, and to \<open>n\<close> otherwise, then writes the button states and the indicator for that
  page and calls the callback once with it. Nothing on this path can raise: it is
  arithmetic on numbers, assignments to properties of the widget's own elements and one
  call of the callback.
\<close>

theorem setPage_clamps:
  assumes "1 \<le> totalPages"
  shows "setPage totalPages onPage n (w, d) =
           (let c = (if n < 0 then 0 else if totalPages - 1 < n then totalPages - 1 else n)
            in (\<lparr>prev_disabled = (c = 0), next_disabled = (c = totalPages - 1),
                  indicator = ''Page '' @ number_toString (c + 1) @ '' of '' @
                              number_toString totalPages,
                  current = c\<rparr>,
                onPage c d)) \<and>
         0 \<le> current (fst (setPage totalPages onPage n (w, d))) \<and>
         current (fst (setPage totalPages onPage n (w, d))) \<le> totalPages - 1"
  using assms by (auto simp: setPage_apply Let_def)

theorem setPage_clamps_witness:
  "setPage 3 record_call 7 (fst (createControls 3 record_call (None, [])), []) =
     (\<lparr>prev_disabled = False, next_disabled = True, indicator = ''Page 3 of 3'', current = 2\<rparr>, [2]) \<and>
   setPage 3 record_call (- 5) (fst (createControls 3 record_call (None, [])), []) =
     (\<lparr>prev_disabled = True, next_disabled = False, indicator = ''Page 1 of 3'', current = 0\<rparr>, [0]) \<and>
   setPage 3 record_call 1 (fst (createControls 3 record_call (None, [])), []) =
     (\<lparr>prev_disabled = False, next_disabled = False, indicator = ''Page 2 of 3'', current = 1\<rparr>, [1])"
proof -
  have h: "(1::int) \<le> 3" by simp
  have digits: "number_toString 1 = ''1''" "number_toString 2 = ''2''" "number_toString 3 = ''3''"
    by code_simp+
  note hi = setPage_clamps [OF h, of record_call 7 "fst (createControls 3 record_call (None, []))" "[]"]
  note lo = setPage_clamps [OF h, of record_call "- 5" "fst (createControls 3 record_call (None, []))" "[]"]
  note mid = setPage_clamps [OF h, of record_call 1 "fst (createControls 3 record_call (None, []))" "[]"]
  from hi lo mid show ?thesis
    by (simp add: digits record_call_def)
qed

text \<open>
  Claim C10. Building the widget returns the callback's state untouched, for every
  callback: the recording callback has recorded nothing, and with \<open>showBlocks\<close> as
  callback no display has changed. The indicator reads \<open>Page 1 of totalPages\<close>. After
  that, a Previous or Next click that leaves the page as it is calls nothing, and every
  other event (a click that changes the page, any \<open>setPage\<close>) calls the callback once,
  with the new page.
\<close>

theorem createControls_silent:
  "createControls totalPages onPage (existing, s) =
     (\<lparr>prev_disabled = True, next_disabled = False,
       indicator = ''Page 1 of '' @ number_toString totalPages, current = 0\<rparr>, s) \<and>
   snd (createControls totalPages record_call (existing, calls)) = calls \<and>
   snd (createControls totalPages (showBlocks blocks) (existing, d)) = d \<and>
   snd (fire totalPages record_call e (w, calls)) =
     (if (e = ClickPrev \<or> e = ClickNext) \<and>
         current (fst (fire totalPages record_call e (w, calls))) = current w
      then calls
      else calls @ [current (fst (fire totalPages record_call e (w, calls)))])"
  by (cases e)
    (simp_all add: createControls_apply click_prev_apply click_next_apply updateButtons_apply
      setPage_apply record_call_def)

theorem createControls_silent_witness:
  "createControls 3 record_call (None, []) =
     (\<lparr>prev_disabled = True, next_disabled = False, indicator = ''Page 1 of 3'', current = 0\<rparr>, []) \<and>
   snd (run_events 3 record_call [ClickPrev, ClickNext, ClickNext, ClickNext, SetPage 0]
          (createControls 3 record_call (None, []))) = [1, 2, 0]"
proof -
  have digits: "number_toString 3 = ''3''"
    by code_simp
  have trace: "snd (run_events 3 record_call [ClickPrev, ClickNext, ClickNext, ClickNext, SetPage 0]
          (createControls 3 record_call (None, []))) = [1, 2, 0]"
    by (simp add: createControls_apply click_prev_apply click_next_apply updateButtons_apply
      setPage_apply record_call_def)
  from createControls_silent [THEN conjunct1, of 3 record_call None "[]"] trace show ?thesis
    by (simp add: digits)
qed

subsection \<open>The one-shot flag\<close>

text \<open>
  Claim C8. The script sets the flag; run with the flag set it changes nothing; run with
  the flag unset it registers \<open>init\<close> exactly once. So any number of runs, one after the
  other, leaves the window as the first run did.
\<close>

theorem script_once:
  "sfcPaginatorInitialized (script w) \<and>
   (sfcPaginatorInitialized w \<longrightarrow> script w = w) \<and>
   (\<not> sfcPaginatorInitialized w \<longrightarrow> init_registrations (script w) = init_registrations w + 1) \<and>
   (script ^^ Suc n) w = script w"
proof -
  have flag: "sfcPaginatorInitialized (script v)" for v
    by (simp add: script_def Let_def)
  have noop: "sfcPaginatorInitialized v \<Longrightarrow> script v = v" for v
    by (simp add: script_def)
  have "(script ^^ Suc n) w = script w"
  proof (induction n)
    case 0
    show ?case by simp
  next
    case (Suc n)
    have "(script ^^ Suc (Suc n)) w = script ((script ^^ Suc n) w)" by simp
    also have "\<dots> = script (script w)" by (simp only: Suc.IH)
    also have "\<dots> = script w" using flag [of w] by (rule noop)
    finally show ?case .
  qed
  moreover have "\<not> sfcPaginatorInitialized w \<Longrightarrow>
      init_registrations (script w) = init_registrations w + 1"
    by (simp add: script_def Let_def init_registrations_def)
  ultimately show ?thesis
    using flag noop by blast
qed

theorem script_once_witness:
  "init_registrations (script (fresh_window Complete)) = 1 \<and>
   (script ^^ 3) (fresh_window Complete) = script (fresh_window Complete) \<and>
   init_registrations ((script ^^ 3) (fresh_window Loading)) = 1"
proof -
  have unset: "\<not> sfcPaginatorInitialized (fresh_window rs)" for rs
    by (simp add: fresh_window_def)
  have none: "init_registrations (fresh_window rs) = 0" for rs
    by (simp add: fresh_window_def init_registrations_def)
  have three: "(3::nat) = Suc 2" by simp
  from script_once [of "fresh_window Complete" 2] script_once [of "fresh_window Loading" 2]
  show ?thesis
    by (simp only: three) (simp add: unset none)
qed

subsection \<open>The mutation watcher\<close>















end
